theory Spec2Isabelle
  imports Main "HOL-Library.Monad_Syntax" "HOL-Library.Multiset"
begin

section \<open>The card shuffler of CardShuffler.h\<close>

text \<open>
  The class template \<^verbatim>\<open>CardShuffler<T>\<close> keeps a deck \<^verbatim>\<open>m_deck\<close>, its recorded size
  \<^verbatim>\<open>m_deckSize\<close>, a parity flag \<^verbatim>\<open>m_bIsDeckOdd\<close> and a random engine \<^verbatim>\<open>m_urng\<close>.
  Every member function is embedded as a function that takes the object's state and
  returns the new one.

  Integers in generation. \<^verbatim>\<open>GenerateDeck\<close> takes any \<^verbatim>\<open>size_t\<close> from its caller, counts
  with an \<^verbatim>\<open>unsigned int\<close>, converts the counter to the card type \<^verbatim>\<open>T\<close> and asks the
  vector for room. The source fixes neither the widths nor \<^verbatim>\<open>T\<close>, so they are a
  parameter, the platform: the largest \<^verbatim>\<open>unsigned int\<close>, the vector's \<^verbatim>\<open>max_size()\<close>, what
  the allocator supplies, and the conversion to \<^verbatim>\<open>T\<close>. The counter wraps, the conversion
  is applied to every card, and a request for room that fails throws.

  Integers in the shuffles. A card is the \<open>int\<close> that its \<^verbatim>\<open>T\<close> stands for. The
  shuffles work on the deck that is there: their sizes and indices are \<open>nat\<close>, and their
  \<^verbatim>\<open>int\<close> counters and \<^verbatim>\<open>std::vector<int>\<close> scratch vectors are taken to hold the sizes and
  cards of that deck. The places where an unsigned subtraction or an iterator can pass
  below zero whatever the width (\<^verbatim>\<open>m_deckSize - 1\<close>, \<^verbatim>\<open>half1 - 1\<close>, \<^verbatim>\<open>half2 - 1\<close>,
  \<^verbatim>\<open>m_deck.end() - 1\<close>) are written out: the index that results lies outside every
  vector.

  Undefined behaviour. An access outside a vector has no defined result in C++; the
  embedding returns \<open>None\<close> there, so a theorem that gives \<open>Some\<close> also says that
  every access was in range.
\<close>

subsection \<open>Data\<close>

datatype ShuffleType =
  STL_SHUFFLE
| FISHER_YATES
| OUTSHUFFLE
| INSHUFFLE
| INV_OUTSHUFFLE
| INV_INSHUFFLE

type_synonym card = int

record 'g CardShuffler =
  m_deck :: "card list"
  m_DeckCopy :: "card list"
  m_bIsDeckOdd :: bool
  m_deckSize :: nat
  m_FirstHalfIndex :: nat
  m_SecondHalfIndex :: nat
  m_MinVectorSize :: nat
  m_urng :: 'g

text \<open>
  The two randomised shuffles call the standard library: \<^verbatim>\<open>std::shuffle\<close> on the whole
  deck, and \<^verbatim>\<open>std::uniform_int_distribution<size_t>(a, b)\<close> applied to the engine. Their
  code is not part of the class, so both are parameters; each takes the engine's state
  \<open>'g\<close> and returns the new one.
\<close>

record 'g stdlib =
  std_shuffle :: "card list \<Rightarrow> 'g \<Rightarrow> card list \<times> 'g"
  uniform_int_distribution :: "nat \<Rightarrow> nat \<Rightarrow> 'g \<Rightarrow> nat \<times> 'g"

text \<open>What the C++ standard promises of the two library calls.\<close>

definition stdlib_contract :: "'g stdlib \<Rightarrow> bool" where
  "stdlib_contract L \<longleftrightarrow>
     (\<forall>xs g. mset (fst (std_shuffle L xs g)) = mset xs) \<and>
     (\<forall>a b g. a \<le> b \<longrightarrow>
        a \<le> fst (uniform_int_distribution L a b g) \<and> fst (uniform_int_distribution L a b g) \<le> b)"

definition MIN_DECK_SIZE :: nat where
  "MIN_DECK_SIZE = 3"

subsection \<open>Vector accesses\<close>

definition at :: "'a list \<Rightarrow> nat \<Rightarrow> 'a option" where
  \<comment> \<open>reading \<^verbatim>\<open>v[i]\<close> or \<^verbatim>\<open>*(v.begin() + i)\<close>\<close>
  "at v i = (if i < length v then Some (v ! i) else None)"

definition assign :: "'a list \<Rightarrow> nat \<Rightarrow> 'a \<Rightarrow> 'a list option" where
  \<comment> \<open>writing \<^verbatim>\<open>v[i] = x\<close>\<close>
  "assign v i x = (if i < length v then Some (v[i := x]) else None)"

definition vector_range :: "'a list \<Rightarrow> nat \<Rightarrow> nat \<Rightarrow> 'a list option" where
  \<comment> \<open>the range constructor \<^verbatim>\<open>std::vector<T>(v.begin() + b, v.begin() + e)\<close>\<close>
  "vector_range v b e =
     (if b \<le> e \<and> e \<le> length v then Some (take (e - b) (drop b v)) else None)"

definition std_copy :: "'a list \<Rightarrow> 'a list \<Rightarrow> nat \<Rightarrow> 'a list option" where
  \<comment> \<open>\<^verbatim>\<open>std::copy(src.begin(), src.end(), dest.begin() + pos)\<close>\<close>
  "std_copy src dest pos =
     (if pos + length src \<le> length dest
      then Some (take pos dest @ src @ drop (pos + length src) dest)
      else None)"

fun is_sorted :: "card list \<Rightarrow> bool" where
  \<comment> \<open>\<^verbatim>\<open>std::is_sorted\<close>: no element is less than the one before it\<close>
  "is_sorted [] = True"
| "is_sorted [x] = True"
| "is_sorted (x # y # xs) = (\<not> y < x \<and> is_sorted (y # xs))"

subsection \<open>Construction, generation, restoration test\<close>

definition CardShuffler :: "'g \<Rightarrow> 'g CardShuffler" where
  \<comment> \<open>the constructor; \<open>g\<close> is the engine as seeded from the clock\<close>
  "CardShuffler g =
     \<lparr> m_deck = [], m_DeckCopy = [], m_bIsDeckOdd = False, m_deckSize = 0,
       m_FirstHalfIndex = 0, m_SecondHalfIndex = 0, m_MinVectorSize = 0, m_urng = g \<rparr>"

definition GetDeck :: "'g CardShuffler \<Rightarrow> card list" where
  "GetDeck s = m_deck s"

definition IsDeckRestored :: "'g CardShuffler \<Rightarrow> bool" where
  "IsDeckRestored s = is_sorted (m_deck s)"

text \<open>
  The platform. \<open>UINT_MAX\<close> is the largest \<^verbatim>\<open>unsigned int\<close>; \<open>max_size\<close> is
  \<^verbatim>\<open>std::vector<T>::max_size()\<close>; \<open>alloc_limit\<close> is the largest number of cards the
  allocator supplies room for; \<open>T_of_uint\<close> is the conversion from \<^verbatim>\<open>unsigned int\<close> to
  \<^verbatim>\<open>T\<close>, read as the card it gives.

  \<^verbatim>\<open>GenerateDeck\<close> asks for room three times, each time for \<^verbatim>\<open>size\<close> cards: the two
  calls of \<^verbatim>\<open>reserve\<close> and the copy it returns. A \<^verbatim>\<open>push_back\<close> within the reserved
  room asks for none. Beyond it, which only happens once the counter has wrapped, the
  library's growth policy decides where the vector gives up; the model lets it grow to
  the bound. In the definition below \<open>s1\<close> is the object after the \<^verbatim>\<open>swap\<close>, \<open>s2\<close>
  after the assignment of a new vector, and so on in the order of the source, so that
  an exception leaves the object as the statements before it made it.
\<close>

datatype exception = length_error | bad_alloc

record platform =
  UINT_MAX :: nat
  max_size :: nat
  alloc_limit :: nat
  T_of_uint :: "nat \<Rightarrow> card"

definition reserve :: "platform \<Rightarrow> nat \<Rightarrow> exception option" where
  \<comment> \<open>\<^verbatim>\<open>v.reserve(n)\<close> on an empty vector: the exception it throws, if any\<close>
  "reserve P n =
     (if max_size P < n then Some length_error
      else if alloc_limit P < n then Some bad_alloc
      else None)"

definition push_back :: "platform \<Rightarrow> card list \<Rightarrow> card \<Rightarrow> exception + card list" where
  \<comment> \<open>\<^verbatim>\<open>v.push_back(x)\<close>: the vector grows by one card while there is room for it\<close>
  "push_back P v x =
     (if max_size P \<le> length v then Inl length_error
      else if alloc_limit P \<le> length v then Inl bad_alloc
      else Inr (v @ [x]))"

function push_back_loop ::
  "platform \<Rightarrow> nat \<Rightarrow> nat \<Rightarrow> card list \<Rightarrow> exception \<times> card list + card list" where
  \<comment> \<open>\<^verbatim>\<open>for (unsigned int i = 0; i < size; i++) m_deck.push_back(i);\<close> from the
      current \<open>i\<close>: \<open>Inr\<close> the deck when the loop ends, \<open>Inl\<close> the exception and the
      deck as it stood when \<^verbatim>\<open>push_back\<close> throws\<close>
  "push_back_loop P i sz deck =
     (if i < sz then
        (case push_back P deck (T_of_uint P i) of
           Inl e \<Rightarrow> Inl (e, deck)
         | Inr deck' \<Rightarrow> push_back_loop P ((i + 1) mod (UINT_MAX P + 1)) sz deck')
      else Inr deck)"
  by pat_completeness auto
termination
  by (relation "measure (\<lambda>(P, i, sz, deck). min (max_size P) (alloc_limit P) - length deck)")
    (auto simp: push_back_def split: if_splits)

declare push_back_loop.simps [simp del]

definition GenerateDeck ::
  "platform \<Rightarrow> nat \<Rightarrow> 'g CardShuffler \<Rightarrow> (exception + card list) \<times> 'g CardShuffler" where
  \<comment> \<open>\<open>Inr\<close> the returned vector or \<open>Inl\<close> the exception thrown, and the object
      afterwards\<close>
  "GenerateDeck P sz s =
     (if sz < MIN_DECK_SIZE then (Inr [], s)
      else
        let s1 = s\<lparr>m_deck := []\<rparr>;
            s2 = s1\<lparr>m_deck := []\<rparr>
        in case reserve P sz of
             Some e \<Rightarrow> (Inl e, s2)
           | None \<Rightarrow>
               let s3 = s2\<lparr>m_DeckCopy := []\<rparr>
               in case reserve P sz of
                    Some e \<Rightarrow> (Inl e, s3)
                  | None \<Rightarrow>
                      let s4 = s3\<lparr>m_deckSize := sz\<rparr>
                      in case push_back_loop P 0 sz (m_deck s4) of
                           Inl (e, deck) \<Rightarrow> (Inl e, s4\<lparr>m_deck := deck\<rparr>)
                         | Inr deck \<Rightarrow>
                             let s5 = s4\<lparr>m_deck := deck\<rparr>;
                                 s6 = s5\<lparr>m_bIsDeckOdd := (sz mod 2 = 1)\<rparr>
                             in (Inr (m_deck s6), s6))"

definition ResetDeck :: "platform \<Rightarrow> 'g CardShuffler \<Rightarrow> exception option \<times> 'g CardShuffler" where
  \<comment> \<open>the exception that \<^verbatim>\<open>GenerateDeck\<close> lets through, if any, and the object afterwards\<close>
  "ResetDeck P s =
     (let nSize = length (m_deck s);
          (r, s') = GenerateDeck P nSize s
      in (case r of Inl e \<Rightarrow> Some e | Inr _ \<Rightarrow> None, s'))"

subsection \<open>The shuffles\<close>

fun copy_every_n_loop ::
  "nat \<Rightarrow> card list \<Rightarrow> nat \<Rightarrow> int list \<Rightarrow> nat \<Rightarrow> int list \<Rightarrow> nat \<Rightarrow> nat
     \<Rightarrow> (int list \<times> int list) option" where
  \<comment> \<open>the loop of \<^verbatim>\<open>copy_every_n\<close>: \<open>i\<close> iterations are left, \<open>srcBegin\<close> is the read
      position, \<open>p1\<close> and \<open>p2\<close> are the write positions\<close>
  "copy_every_n_loop 0 src srcBegin dest1 p1 dest2 p2 n = Some (dest1, dest2)"
| "copy_every_n_loop (Suc i) src srcBegin dest1 p1 dest2 p2 n =
     do {
       a \<leftarrow> at src srcBegin;
       dest1' \<leftarrow> assign dest1 p1 a;
       b \<leftarrow> at src (srcBegin + 1);
       dest2' \<leftarrow> assign dest2 p2 b;
       copy_every_n_loop i src (srcBegin + n) dest1' (p1 + 1) dest2' (p2 + 1) n
     }"

definition copy_every_n ::
  "card list \<Rightarrow> nat \<Rightarrow> nat \<Rightarrow> int list \<Rightarrow> int list \<Rightarrow> nat \<Rightarrow> (int list \<times> int list) option" where
  \<comment> \<open>the source range is \<open>src\<close> from index \<open>srcBegin\<close> to index \<open>srcEnd\<close>; both
      destinations are written from their first element\<close>
  "copy_every_n src srcBegin srcEnd destVector1 destVector2 n =
     (if n = 0 \<or> srcEnd < srcBegin \<or> length src < srcEnd then None
      else copy_every_n_loop ((srcEnd - srcBegin) div n) src srcBegin destVector1 0 destVector2 0 n)"

definition inverse_half1 :: "'g CardShuffler \<Rightarrow> nat" where
  \<comment> \<open>\<^verbatim>\<open>half1\<close> as the inverse shuffles compute it\<close>
  "inverse_half1 s = (if m_bIsDeckOdd s then m_deckSize s div 2 else (m_deckSize s + 1) div 2)"

definition PerformShuffle_inverse :: "ShuffleType \<Rightarrow> 'g CardShuffler \<Rightarrow> 'g CardShuffler option" where
  \<comment> \<open>the block of the cases \<^verbatim>\<open>INV_INSHUFFLE\<close> and \<^verbatim>\<open>INV_OUTSHUFFLE\<close>\<close>
  "PerformShuffle_inverse shuffleType s =
     (let half1 = inverse_half1 s;
          half2 = m_deckSize s - half1;
          minSize = min half1 half2;
          vecFirstHalf = replicate minSize (0::int);
          vecSecondHalf = replicate minSize (0::int)
      in do {
        deck1 \<leftarrow>
          (if shuffleType = INV_INSHUFFLE then
             (if m_bIsDeckOdd s then
                (if length (m_deck s) = 0 then None
                 else do {
                   (A, B) \<leftarrow> copy_every_n (m_deck s) 0 (length (m_deck s) - 1) vecFirstHalf vecSecondHalf 2;
                   d \<leftarrow> std_copy B (m_deck s) 0;
                   std_copy A d half1
                 })
              else do {
                (A, B) \<leftarrow> copy_every_n (m_deck s) 0 (length (m_deck s)) vecFirstHalf vecSecondHalf 2;
                d \<leftarrow> std_copy B (m_deck s) 0;
                std_copy A d half1
              })
           else Some (m_deck s));
        deck2 \<leftarrow>
          (if shuffleType = INV_OUTSHUFFLE then
             (if m_bIsDeckOdd s then do {
                (A, B) \<leftarrow> copy_every_n deck1 1 (length deck1) vecFirstHalf vecSecondHalf 2;
                d \<leftarrow> std_copy B deck1 1;
                std_copy A d (half1 + 1)
              }
              else do {
                (A, B) \<leftarrow> copy_every_n deck1 0 (length deck1) vecFirstHalf vecSecondHalf 2;
                d \<leftarrow> std_copy A deck1 0;
                std_copy B d half1
              })
           else Some deck1);
        Some (s\<lparr>m_deck := deck2\<rparr>)
      })"

function interleave_loop ::
  "ShuffleType \<Rightarrow> card list \<Rightarrow> card list \<Rightarrow> nat \<Rightarrow> nat \<Rightarrow> nat \<Rightarrow> card list \<Rightarrow> card list option" where
  \<comment> \<open>\<^verbatim>\<open>for (int nIndex = 0, i = 0; i < minSize; i++, nIndex += 2)\<close>\<close>
  "interleave_loop shuffleType vecFirstHalf vecSecondHalf minSize nIndex i deck =
     (if i < minSize then
        (if shuffleType = INSHUFFLE then do {
           a \<leftarrow> at vecSecondHalf i;
           deck' \<leftarrow> assign deck nIndex a;
           b \<leftarrow> at vecFirstHalf i;
           deck'' \<leftarrow> assign deck' (nIndex + 1) b;
           interleave_loop shuffleType vecFirstHalf vecSecondHalf minSize (nIndex + 2) (i + 1) deck''
         }
         else do {
           a \<leftarrow> at vecFirstHalf i;
           deck' \<leftarrow> assign deck nIndex a;
           b \<leftarrow> at vecSecondHalf i;
           deck'' \<leftarrow> assign deck' (nIndex + 1) b;
           interleave_loop shuffleType vecFirstHalf vecSecondHalf minSize (nIndex + 2) (i + 1) deck''
         })
      else Some deck)"
  by pat_completeness auto
termination
  by (relation "measure (\<lambda>(shuffleType, vecFirstHalf, vecSecondHalf, minSize, nIndex, i, deck). minSize - i)") auto

declare interleave_loop.simps [simp del]

definition riffle_half1 :: "ShuffleType \<Rightarrow> 'g CardShuffler \<Rightarrow> nat" where
  \<comment> \<open>\<^verbatim>\<open>half1\<close> as the forward shuffles compute it\<close>
  "riffle_half1 shuffleType s =
     (if shuffleType = INSHUFFLE then m_deckSize s div 2 else (m_deckSize s + 1) div 2)"

definition PerformShuffle_riffle :: "ShuffleType \<Rightarrow> 'g CardShuffler \<Rightarrow> 'g CardShuffler option" where
  \<comment> \<open>the block of the cases \<^verbatim>\<open>OUTSHUFFLE\<close> and \<^verbatim>\<open>INSHUFFLE\<close>\<close>
  "PerformShuffle_riffle shuffleType s =
     (let half1 = riffle_half1 shuffleType s;
          half2 = m_deckSize s - half1;
          minSize = min half1 half2
      in do {
        vecFirstHalf \<leftarrow> vector_range (m_deck s) 0 half1;
        vecSecondHalf \<leftarrow> vector_range (m_deck s) half1 (length (m_deck s));
        deck \<leftarrow> interleave_loop shuffleType vecFirstHalf vecSecondHalf minSize 0 0 (m_deck s);
        deck' \<leftarrow>
          (if m_bIsDeckOdd s then
             (if shuffleType = INSHUFFLE then
                (if half2 = 0 \<or> m_deckSize s = 0 then None
                 else do { x \<leftarrow> at vecSecondHalf (half2 - 1); assign deck (m_deckSize s - 1) x })
              else
                (if half1 = 0 \<or> m_deckSize s = 0 then None
                 else do { x \<leftarrow> at vecFirstHalf (half1 - 1); assign deck (m_deckSize s - 1) x }))
           else Some deck);
        Some (s\<lparr>m_deck := deck'\<rparr>)
      })"

function fisher_yates_loop ::
  "'g stdlib \<Rightarrow> nat \<Rightarrow> card list \<Rightarrow> 'g \<Rightarrow> (card list \<times> 'g) option" where
  \<comment> \<open>\<^verbatim>\<open>for (size_t i = (m_deckSize - 1); i > 0; --i)\<close>, from the current \<open>i\<close>\<close>
  "fisher_yates_loop L i deck g =
     (if i > 0 then
        (let (swapIndex, g') = uniform_int_distribution L 0 i g
         in do {
           x \<leftarrow> at deck i;
           y \<leftarrow> at deck swapIndex;
           deck' \<leftarrow> assign deck i y;
           deck'' \<leftarrow> assign deck' swapIndex x;
           fisher_yates_loop L (i - 1) deck'' g'
         })
      else Some (deck, g))"
  by pat_completeness auto
termination
  by (relation "measure (\<lambda>(L, i, deck, g). i)") auto

declare fisher_yates_loop.simps [simp del]

definition PerformShuffle :: "'g stdlib \<Rightarrow> ShuffleType \<Rightarrow> 'g CardShuffler \<Rightarrow> 'g CardShuffler option" where
  "PerformShuffle L shuffleType s =
     (case shuffleType of
        STL_SHUFFLE \<Rightarrow>
          (let (deck, g) = std_shuffle L (m_deck s) (m_urng s)
           in Some (s\<lparr>m_deck := deck, m_urng := g\<rparr>))
      | FISHER_YATES \<Rightarrow>
          (if m_deckSize s = 0 then None
           else do {
             (deck, g) \<leftarrow> fisher_yates_loop L (m_deckSize s - 1) (m_deck s) (m_urng s);
             Some (s\<lparr>m_deck := deck, m_urng := g\<rparr>)
           })
      | INV_INSHUFFLE \<Rightarrow> PerformShuffle_inverse shuffleType s
      | INV_OUTSHUFFLE \<Rightarrow> PerformShuffle_inverse shuffleType s
      | OUTSHUFFLE \<Rightarrow> PerformShuffle_riffle shuffleType s
      | INSHUFFLE \<Rightarrow> PerformShuffle_riffle shuffleType s)"

subsection \<open>The restoration loop\<close>

text \<open>
  \<^verbatim>\<open>do { nShuffles++; PerformShuffle(shuffle); } while (IsDeckRestored() == false);\<close>
  The loop has no bound. \<open>None\<close> says that the call does not return a count: the loop
  runs forever, or a shuffle inside it has no defined behaviour.
\<close>

partial_function (option) RestoreDeck_loop ::
  "'g stdlib \<Rightarrow> ShuffleType \<Rightarrow> nat \<Rightarrow> 'g CardShuffler \<Rightarrow> (nat \<times> 'g CardShuffler) option" where
  "RestoreDeck_loop L shuffle nShuffles s =
     (case PerformShuffle L shuffle s of
        None \<Rightarrow> None
      | Some s' \<Rightarrow>
          if IsDeckRestored s' = False then RestoreDeck_loop L shuffle (nShuffles + 1) s'
          else Some (nShuffles + 1, s'))"

definition RestoreDeck :: "'g stdlib \<Rightarrow> ShuffleType \<Rightarrow> 'g CardShuffler \<Rightarrow> (nat \<times> 'g CardShuffler) option" where
  "RestoreDeck L shuffle s = RestoreDeck_loop L shuffle 0 s"

subsection \<open>The states the class can be in\<close>

text \<open>
  The members are private, so an object is only ever changed by the functions above.
  The constructor gives, and each call that returns keeps, that the recorded size is the
  length of the deck and the flag is its parity. A generation that throws leaves the
  deck emptied or cut short beside a recorded size and flag that no longer describe it.
\<close>

definition deck_inv :: "'g CardShuffler \<Rightarrow> bool" where
  "deck_inv s \<longleftrightarrow> m_deckSize s = length (m_deck s) \<and> m_bIsDeckOdd s = odd (m_deckSize s)"

definition canonical :: "nat \<Rightarrow> card list" where
  \<comment> \<open>the ascending deck \<open>0, 1, ..., N - 1\<close>\<close>
  "canonical N = map int [0..<N]"

subsection \<open>Deinterleaving, for the proofs\<close>

fun uninterleave :: "'a list \<Rightarrow> 'a list \<times> 'a list" where
  "uninterleave [] = ([], [])"
| "uninterleave (x # xs) = (let (a, b) = uninterleave xs in (x # b, a))"

definition evens :: "'a list \<Rightarrow> 'a list" where
  \<comment> \<open>the items at offsets 0, 2, 4, ...\<close>
  "evens xs = fst (uninterleave xs)"

definition odds :: "'a list \<Rightarrow> 'a list" where
  \<comment> \<open>the items at offsets 1, 3, 5, ...\<close>
  "odds xs = snd (uninterleave xs)"

subsection \<open>The four riffles in closed form, for the proofs\<close>

definition riffle_out :: "'a list \<Rightarrow> 'a list" where
  "riffle_out d = splice (take ((length d + 1) div 2) d) (drop ((length d + 1) div 2) d)"

definition riffle_in :: "'a list \<Rightarrow> 'a list" where
  "riffle_in d = splice (drop (length d div 2) d) (take (length d div 2) d)"

definition unriffle_out :: "'a list \<Rightarrow> 'a list" where
  "unriffle_out d = evens d @ odds d"

definition unriffle_in :: "'a list \<Rightarrow> 'a list" where
  "unriffle_in d = odds d @ evens d"

subsection \<open>A library instance for the examples\<close>

definition stdlib_example :: "nat stdlib" where
  \<comment> \<open>the engine is a counter; the shuffle reverses, the distribution draws
      \<open>a + g mod (b - a + 1)\<close>\<close>
  "stdlib_example =
     \<lparr> std_shuffle = (\<lambda>xs g. (rev xs, g + 1)),
       uniform_int_distribution = (\<lambda>a b g. (a + g mod (b - a + 1), g + 1)) \<rparr>"

definition fits :: "platform \<Rightarrow> nat \<Rightarrow> bool" where
  \<comment> \<open>the platform can generate \<open>N\<close> cards: the vector and the allocator have room for
      them, the counter reaches \<open>N\<close>, and \<^verbatim>\<open>T\<close> holds each of \<open>0, ..., N - 1\<close> as it is\<close>
  "fits P N \<longleftrightarrow>
     N \<le> max_size P \<and> N \<le> alloc_limit P \<and> N \<le> UINT_MAX P \<and>
     list_all (\<lambda>i. T_of_uint P i = int i) [0..<N]"

definition platform_int :: platform where
  \<comment> \<open>\<^verbatim>\<open>T = int\<close> with 32-bit \<^verbatim>\<open>int\<close> and 64-bit \<^verbatim>\<open>size_t\<close>: \<^verbatim>\<open>max_size()\<close> is
      \<open>2^61 - 1\<close>, and the allocator has room for \<open>2^32\<close> cards\<close>
  "platform_int =
     \<lparr> UINT_MAX = 4294967295, max_size = 2305843009213693951, alloc_limit = 4294967296,
       T_of_uint = (\<lambda>i. if i \<le> 2147483647 then int i else int i - 4294967296) \<rparr>"

definition platform_uint8 :: platform where
  \<comment> \<open>\<^verbatim>\<open>T = uint8_t\<close> on the same machine: \<^verbatim>\<open>max_size()\<close> is \<open>2^63 - 1\<close>\<close>
  "platform_uint8 =
     \<lparr> UINT_MAX = 4294967295, max_size = 9223372036854775807, alloc_limit = 4294967296,
       T_of_uint = (\<lambda>i. int (i mod 256)) \<rparr>"

definition example_deck :: "card list \<Rightarrow> nat CardShuffler" where
  \<comment> \<open>an object generated at the length of \<open>d\<close> whose deck has been brought to \<open>d\<close>\<close>
  "example_deck d = (snd (GenerateDeck platform_int (length d) (CardShuffler 0)))\<lparr>m_deck := d\<rparr>"

subsection \<open>Counting shuffles on the deck alone, for the proofs\<close>

fun restore_count :: "(card list \<Rightarrow> card list) \<Rightarrow> nat \<Rightarrow> nat \<Rightarrow> card list \<Rightarrow> nat option" where
  \<comment> \<open>the restoration loop for a shuffle \<open>f\<close> of the deck, cut off after
      \<open>fuel\<close> rounds\<close>
  "restore_count f 0 n d = None"
| "restore_count f (Suc fuel) n d =
     (if is_sorted (f d) then Some (n + 1) else restore_count f fuel (n + 1) (f d))"

subsection \<open>The halves of the inverse out-shuffle on an odd deck\<close>

definition half_A :: "'a list \<Rightarrow> 'a list" where
  \<comment> \<open>the items at deck positions 1, 3, 5, ...\<close>
  "half_A d = map (\<lambda>k. d ! (2 * k + 1)) [0..<(length d - 1) div 2]"

definition half_B :: "'a list \<Rightarrow> 'a list" where
  \<comment> \<open>the items at deck positions 2, 4, 6, ...\<close>
  "half_B d = map (\<lambda>k. d ! (2 * k + 2)) [0..<(length d - 1) div 2]"

definition claimed_InverseOutshuffle_odd :: "'a list \<Rightarrow> 'a list" where
  \<comment> \<open>in the specification's words, not the code's: position 0 untouched, then
      \<open>A\<close> followed by \<open>B\<close> in positions \<open>[1, N)\<close>\<close>
  "claimed_InverseOutshuffle_odd d = d ! 0 # half_A d @ half_B d"

subsection \<open>A run of generation calls\<close>

definition failed_generations :: "platform \<Rightarrow> nat list \<Rightarrow> 'g CardShuffler \<Rightarrow> 'g CardShuffler" where
  \<comment> \<open>\<^verbatim>\<open>GenerateDeck(n)\<close> for each \<open>n\<close> of the list in turn, the returned vectors dropped\<close>
  "failed_generations P ns s = fold (\<lambda>n s. snd (GenerateDeck P n s)) ns s"

section \<open>Lemmas\<close>

subsection \<open>Generation and sortedness\<close>

lemma push_back_loop_wraps:
  "UINT_MAX P < sz \<Longrightarrow> i \<le> UINT_MAX P \<Longrightarrow> isl (push_back_loop P i sz deck)"
proof (induction P i sz deck rule: push_back_loop.induct)
  case (1 P i sz deck)
  have lt: "i < sz" using "1.prems" by simp
  have nxt: "(i + 1) mod (UINT_MAX P + 1) \<le> UINT_MAX P"
    by (metis Suc_eq_plus1 less_Suc_eq_le mod_less_divisor zero_less_Suc)
  show ?case
  proof (cases "push_back P deck (T_of_uint P i)")
    case (Inl e)
    then show ?thesis using lt by (subst push_back_loop.simps) simp
  next
    case (Inr deck')
    then have "isl (push_back_loop P ((i + 1) mod (UINT_MAX P + 1)) sz deck')"
      using lt "1.prems"(1) nxt by (intro "1.IH") simp_all
    then show ?thesis using lt Inr by (subst push_back_loop.simps) simp
  qed
qed

lemma push_back_loop_fits:
  "i \<le> sz \<Longrightarrow> sz \<le> UINT_MAX P \<Longrightarrow>
   length deck + (sz - i) \<le> max_size P \<Longrightarrow> length deck + (sz - i) \<le> alloc_limit P \<Longrightarrow>
   push_back_loop P i sz deck = Inr (deck @ map (T_of_uint P) [i..<sz])"
proof (induction "sz - i" arbitrary: i deck)
  case 0
  then show ?case by (subst push_back_loop.simps) simp
next
  case (Suc k)
  then have lt: "i < sz" by simp
  have nxt: "Suc i mod Suc (UINT_MAX P) = Suc i"
    using lt Suc.prems(2) by simp
  have pb: "push_back P deck (T_of_uint P i) = Inr (deck @ [T_of_uint P i])"
    using lt Suc.prems(3,4) by (auto simp: push_back_def)
  have "push_back_loop P (Suc i) sz (deck @ [T_of_uint P i])
          = Inr ((deck @ [T_of_uint P i]) @ map (T_of_uint P) [Suc i..<sz])"
    using Suc.hyps(2) Suc.prems lt by (intro Suc.hyps(1)) simp_all
  then show ?case
    using lt by (subst push_back_loop.simps) (simp add: pb nxt upt_conv_Cons)
qed

lemma push_back_loop_returns:
  "sz \<le> UINT_MAX P \<Longrightarrow> i \<le> sz \<Longrightarrow> push_back_loop P i sz deck = Inr deck' \<Longrightarrow>
   length deck' = length deck + (sz - i)"
proof (induction "sz - i" arbitrary: i deck)
  case 0
  then show ?case by (subst (asm) push_back_loop.simps) simp
next
  case (Suc k)
  then have lt: "i < sz" by simp
  have nxt: "Suc i mod Suc (UINT_MAX P) = Suc i"
    using lt Suc.prems(1) by simp
  have unf: "push_back_loop P i sz deck =
      (case push_back P deck (T_of_uint P i) of
         Inl e \<Rightarrow> Inl (e, deck)
       | Inr d1 \<Rightarrow> push_back_loop P ((i + 1) mod (UINT_MAX P + 1)) sz d1)"
    using lt by (subst push_back_loop.simps) simp
  obtain d1 where
    pb: "push_back P deck (T_of_uint P i) = Inr d1" and r: "push_back_loop P (Suc i) sz d1 = Inr deck'"
    by (cases "push_back P deck (T_of_uint P i)") (use unf Suc.prems(3) nxt in auto)
  from pb have d1: "length d1 = length deck + 1"
    by (auto simp: push_back_def split: if_splits)
  have "length deck' = length d1 + (sz - Suc i)"
    using Suc.hyps(2) Suc.prems(1) lt r by (intro Suc.hyps(1)) simp_all
  then show ?case using d1 lt by simp
qed

lemma push_back_loop_length:
  assumes "push_back_loop P 0 sz [] = Inr deck"
  shows "length deck = sz"
proof (cases "sz \<le> UINT_MAX P")
  case True
  then show ?thesis
    using push_back_loop_returns [OF True _ assms] by simp
next
  case False
  then have "isl (push_back_loop P 0 sz [])"
    by (intro push_back_loop_wraps) simp_all
  then show ?thesis using assms by simp
qed

lemma fits_mono: "fits P N \<Longrightarrow> M \<le> N \<Longrightarrow> fits P M"
  by (auto simp: fits_def list_all_iff)

lemma fits_platform_int: "N \<le> 2147483648 \<Longrightarrow> fits platform_int N"
  by (auto simp: fits_def platform_int_def list_all_iff)

lemma fits_cards: "fits P N \<Longrightarrow> map (T_of_uint P) [0..<N] = map int [0..<N]"
  by (simp add: fits_def list_all_iff)

lemma is_sorted_iff: "is_sorted xs \<longleftrightarrow> sorted xs"
proof (induction xs rule: is_sorted.induct)
  case (3 x y xs)
  have "sorted (x # y # xs) \<longleftrightarrow> x \<le> y \<and> sorted (y # xs)"
    by (rule sorted2)
  with 3 show ?case
    by (simp only: is_sorted.simps not_less)
qed simp_all

lemma sorted_canonical: "sorted (canonical N)"
  unfolding canonical_def by (simp add: sorted_map sorted_wrt_iff_nth_less)

lemma evens_simps [simp]: "evens [] = []" "evens (x # xs) = x # odds xs"
  by (simp_all add: evens_def odds_def split: prod.splits)

lemma odds_simps [simp]: "odds [] = []" "odds (x # xs) = evens xs"
  by (simp_all add: evens_def odds_def split: prod.splits)

lemma length_evens_odds:
  "length (evens xs) = (length xs + 1) div 2 \<and> length (odds xs) = length xs div 2"
  by (induction xs) auto


lemma nth_evens_odds:
  "(j < length (evens xs) \<longrightarrow> evens xs ! j = xs ! (2 * j)) \<and>
   (j < length (odds xs) \<longrightarrow> odds xs ! j = xs ! (2 * j + 1))"
proof (induction xs arbitrary: j)
  case Nil
  then show ?case by simp
next
  case (Cons x xs)
  show ?case
  proof (cases j)
    case 0
    then show ?thesis using Cons [of 0] by simp
  next
    case (Suc k)
    then show ?thesis using Cons [of k] Cons [of "Suc k"] by simp
  qed
qed



lemma splice_append_same_length:
  "length xs = length ys \<Longrightarrow> splice (xs @ zs) ys = splice xs ys @ zs"
  by (induction xs ys rule: list_induct2) auto

subsection \<open>The loops\<close>

lemma copy_every_n_loop_eq:
  "srcBegin + 2 * k \<le> length src \<Longrightarrow> p1 + k \<le> length dest1 \<Longrightarrow> p2 + k \<le> length dest2 \<Longrightarrow>
   copy_every_n_loop k src srcBegin dest1 p1 dest2 p2 2 =
     Some (take p1 dest1 @ take k (evens (drop srcBegin src)) @ drop (p1 + k) dest1,
           take p2 dest2 @ take k (odds (drop srcBegin src)) @ drop (p2 + k) dest2)"
proof (induction k arbitrary: srcBegin dest1 p1 dest2 p2)
  case 0
  then show ?case by simp
next
  case (Suc k)
  from Suc.prems have lt: "srcBegin < length src" "srcBegin + 1 < length src" by simp_all
  then have d: "drop srcBegin src = src ! srcBegin # src ! (srcBegin + 1) # drop (srcBegin + 2) src"
    by (simp add: Cons_nth_drop_Suc)
  have ih: "copy_every_n_loop k src (Suc (Suc srcBegin)) (dest1[p1 := a]) (Suc p1) (dest2[p2 := b]) (Suc p2) 2 =
     Some (take p1 dest1 @ a # take k (evens (drop (Suc (Suc srcBegin)) src)) @ drop (Suc (p1 + k)) dest1,
           take p2 dest2 @ b # take k (odds (drop (Suc (Suc srcBegin)) src)) @ drop (Suc (p2 + k)) dest2)" for a b
    using Suc.prems
      Suc.IH [of "Suc (Suc srcBegin)" "Suc p1" "dest1[p1 := a]" "Suc p2" "dest2[p2 := b]"]
    by (simp add: take_Suc_conv_app_nth)
  show ?case
    using Suc.prems lt
    by (simp add: at_def assign_def ih d)
qed

lemma copy_every_n_eq:
  assumes "srcBegin \<le> srcEnd" "srcEnd \<le> length src" "even (srcEnd - srcBegin)"
    and "k = (srcEnd - srcBegin) div 2"
  shows "copy_every_n src srcBegin srcEnd (replicate k 0) (replicate k 0) 2 =
           Some (take k (evens (drop srcBegin src)), take k (odds (drop srcBegin src)))"
proof -
  have "srcBegin + 2 * k \<le> length src"
    using assms by auto
  then have "copy_every_n_loop k src srcBegin (replicate k 0) 0 (replicate k 0) 0 2 =
               Some (take k (evens (drop srcBegin src)), take k (odds (drop srcBegin src)))"
    by (subst copy_every_n_loop_eq) simp_all
  then show ?thesis
    using assms by (simp add: copy_every_n_def)
qed

lemma interleave_loop_out:
  "shuffleType \<noteq> INSHUFFLE \<Longrightarrow> i \<le> m \<Longrightarrow> m \<le> length F \<Longrightarrow> m \<le> length S \<Longrightarrow> 2 * m \<le> length deck \<Longrightarrow>
   interleave_loop shuffleType F S m (2 * i) i deck =
     Some (take (2 * i) deck @ splice (drop i (take m F)) (drop i (take m S)) @ drop (2 * m) deck)"
proof (induction "m - i" arbitrary: i deck)
  case 0
  then show ?case by (subst interleave_loop.simps) simp
next
  case (Suc k)
  then have lt: "i < m" by simp
  have dF: "drop i (take m F) = F ! i # drop (Suc i) (take m F)"
    using lt Suc.prems by (simp add: Cons_nth_drop_Suc [symmetric])
  have dS: "drop i (take m S) = S ! i # drop (Suc i) (take m S)"
    using lt Suc.prems by (simp add: Cons_nth_drop_Suc [symmetric])
  let ?deck = "deck[2 * i := F ! i, 2 * i + 1 := S ! i]"
  have tk: "take (2 * Suc i) ?deck = take (2 * i) deck @ [F ! i, S ! i]"
    using lt Suc.prems by (simp add: take_Suc_conv_app_nth)
  have dr: "drop (2 * m) ?deck = drop (2 * m) deck"
    using lt by simp
  have ih: "interleave_loop shuffleType F S m (2 * Suc i) (Suc i) ?deck =
     Some (take (2 * Suc i) ?deck @ splice (drop (Suc i) (take m F)) (drop (Suc i) (take m S)) @ drop (2 * m) ?deck)"
    using Suc.hyps Suc.prems lt by (intro Suc.hyps(1)) simp_all
  show ?case
    using lt Suc.prems
    by (subst interleave_loop.simps) (simp add: at_def assign_def ih [simplified] tk [simplified] dr [simplified] dF dS)
qed

lemma interleave_loop_in:
  "i \<le> m \<Longrightarrow> m \<le> length F \<Longrightarrow> m \<le> length S \<Longrightarrow> 2 * m \<le> length deck \<Longrightarrow>
   interleave_loop INSHUFFLE F S m (2 * i) i deck =
     Some (take (2 * i) deck @ splice (drop i (take m S)) (drop i (take m F)) @ drop (2 * m) deck)"
proof (induction "m - i" arbitrary: i deck)
  case 0
  then show ?case by (subst interleave_loop.simps) simp
next
  case (Suc k)
  then have lt: "i < m" by simp
  have dF: "drop i (take m F) = F ! i # drop (Suc i) (take m F)"
    using lt Suc.prems by (simp add: Cons_nth_drop_Suc [symmetric])
  have dS: "drop i (take m S) = S ! i # drop (Suc i) (take m S)"
    using lt Suc.prems by (simp add: Cons_nth_drop_Suc [symmetric])
  let ?deck = "deck[2 * i := S ! i, 2 * i + 1 := F ! i]"
  have tk: "take (2 * Suc i) ?deck = take (2 * i) deck @ [S ! i, F ! i]"
    using lt Suc.prems by (simp add: take_Suc_conv_app_nth)
  have dr: "drop (2 * m) ?deck = drop (2 * m) deck"
    using lt by simp
  have ih: "interleave_loop INSHUFFLE F S m (2 * Suc i) (Suc i) ?deck =
     Some (take (2 * Suc i) ?deck @ splice (drop (Suc i) (take m S)) (drop (Suc i) (take m F)) @ drop (2 * m) ?deck)"
    using Suc.hyps Suc.prems lt by (intro Suc.hyps(1)) simp_all
  show ?case
    using lt Suc.prems
    by (subst interleave_loop.simps) (simp add: at_def assign_def ih [simplified] tk [simplified] dr [simplified] dF dS)
qed


subsection \<open>The shuffle blocks on a well-formed object\<close>

lemma PerformShuffle_riffle_out:
  assumes "deck_inv s"
  shows "PerformShuffle_riffle OUTSHUFFLE s = Some (s\<lparr>m_deck := riffle_out (m_deck s)\<rparr>)"
proof -
  define d where "d = m_deck s"
  define m where "m = length d div 2"
  have sz: "m_deckSize s = length d" and par: "m_bIsDeckOdd s = odd (length d)"
    using assms by (simp_all add: deck_inv_def d_def)
  show ?thesis
  proof (cases "even (length d)")
    case True
    then have N: "length d = 2 * m" by (auto simp: m_def)
    have loop: "interleave_loop OUTSHUFFLE (take m d) (drop m d) m 0 0 d = Some (splice (take m d) (drop m d))"
      using interleave_loop_out [of OUTSHUFFLE 0 m "take m d" "drop m d" d] N by simp
    show ?thesis
      using N True loop
      by (simp add: PerformShuffle_riffle_def riffle_half1_def vector_range_def sz par
          riffle_out_def d_def [symmetric])
  next
    case False
    then have N: "length d = 2 * m + 1" by (auto simp: m_def elim: oddE)
    have loop: "interleave_loop OUTSHUFFLE (take (Suc m) d) (drop (Suc m) d) m 0 0 d
                  = Some (splice (take m d) (drop (Suc m) d) @ drop (2 * m) d)"
      using interleave_loop_out [of OUTSHUFFLE 0 m "take (Suc m) d" "drop (Suc m) d" d] N
      by (simp add: min_def)
    have last: "drop (2 * m) d = [d ! (2 * m)]"
      using N by (metis Cons_nth_drop_Suc Suc_eq_plus1 drop_all lessI order_refl)
    have upd: "(splice (take m d) (drop (Suc m) d) @ [d ! (2 * m)])[2 * m := d ! m]
                 = splice (take (Suc m) d) (drop (Suc m) d)"
      using N by (simp add: list_update_append take_Suc_conv_app_nth splice_append_same_length)
    show ?thesis
      using N False loop
      by (simp add: PerformShuffle_riffle_def riffle_half1_def vector_range_def sz par
          riffle_out_def d_def [symmetric] at_def assign_def last upd)
  qed
qed

lemma PerformShuffle_riffle_in:
  assumes "deck_inv s"
  shows "PerformShuffle_riffle INSHUFFLE s = Some (s\<lparr>m_deck := riffle_in (m_deck s)\<rparr>)"
proof -
  define d where "d = m_deck s"
  define m where "m = length d div 2"
  have sz: "m_deckSize s = length d" and par: "m_bIsDeckOdd s = odd (length d)"
    using assms by (simp_all add: deck_inv_def d_def)
  show ?thesis
  proof (cases "even (length d)")
    case True
    then have N: "length d = 2 * m" by (auto simp: m_def)
    have loop: "interleave_loop INSHUFFLE (take m d) (drop m d) m 0 0 d = Some (splice (drop m d) (take m d))"
      using interleave_loop_in [of 0 m "take m d" "drop m d" d] N by simp
    show ?thesis
      using N True loop
      by (simp add: PerformShuffle_riffle_def riffle_half1_def vector_range_def sz par
          riffle_in_def d_def [symmetric])
  next
    case False
    then have N: "length d = 2 * m + 1" by (auto simp: m_def elim: oddE)
    have loop: "interleave_loop INSHUFFLE (take m d) (drop m d) m 0 0 d
                  = Some (splice (take m (drop m d)) (take m d) @ drop (2 * m) d)"
      using interleave_loop_in [of 0 m "take m d" "drop m d" d] N
      by (simp add: min_def)
    have last: "drop (2 * m) d = [d ! (2 * m)]"
      using N by (metis Cons_nth_drop_Suc Suc_eq_plus1 drop_all lessI order_refl)
    have S: "drop m d = take m (drop m d) @ [d ! (2 * m)]"
      using N by (metis Suc_eq_plus1 add_diff_cancel_left' append_take_drop_id drop_drop last 
          mult_2 add.commute)
    have upd: "splice (take m (drop m d)) (take m d) @ [d ! (2 * m)]
                 = splice (drop m d) (take m d)"
      using N by (subst (2) S) (simp add: splice_append_same_length)
    have "(splice (take m (drop m d)) (take m d) @ [d ! (2 * m)])[2 * m := d ! (m + m)]
            = splice (take m (drop m d)) (take m d) @ [d ! (2 * m)]"
      using N by (simp add: list_update_append mult_2)
    then have upd2: "(splice (drop m d) (take m d))[2 * m := d ! (m + m)] = splice (drop m d) (take m d)"
      by (simp only: upd)
    show ?thesis
      using N False loop
      by (simp add: PerformShuffle_riffle_def riffle_half1_def vector_range_def sz par
          riffle_in_def d_def [symmetric] at_def assign_def last upd upd2)
  qed
qed

lemma length_evens [simp]: "length (evens xs) = (length xs + 1) div 2"
  using length_evens_odds [of xs] by simp

lemma length_odds [simp]: "length (odds xs) = length xs div 2"
  using length_evens_odds [of xs] by simp

lemma PerformShuffle_inverse_out:
  assumes "deck_inv s"
  shows "PerformShuffle_inverse INV_OUTSHUFFLE s = Some (s\<lparr>m_deck := unriffle_out (m_deck s)\<rparr>)"
proof -
  define d where "d = m_deck s"
  define m where "m = length d div 2"
  have sz: "m_deckSize s = length d" and par: "m_bIsDeckOdd s = odd (length d)"
    using assms by (simp_all add: deck_inv_def d_def)
  show ?thesis
  proof (cases "even (length d)")
    case True
    then have N: "length d = 2 * m" by (auto simp: m_def)
    have cp: "copy_every_n d 0 (2 * m) (replicate m 0) (replicate m 0) 2 = Some (evens d, odds d)"
      using copy_every_n_eq [of 0 "2 * m" d m] N by simp
    show ?thesis
      using N True cp
      by (simp add: PerformShuffle_inverse_def inverse_half1_def sz par std_copy_def
          unriffle_out_def d_def [symmetric])
  next
    case False
    then have N: "length d = 2 * m + 1" by (auto simp: m_def elim: oddE)
    then obtain x t where d: "d = x # t" and t: "length t = 2 * m"
      by (cases d) simp_all
    have cp: "copy_every_n (x # t) (Suc 0) (Suc (2 * m)) (replicate m 0) (replicate m 0) 2 = Some (evens t, odds t)"
      using copy_every_n_eq [of 1 "2 * m + 1" d m] d t by simp
    show ?thesis
      using False cp t
      by (simp add: PerformShuffle_inverse_def inverse_half1_def sz par std_copy_def
          unriffle_out_def d_def [symmetric] d)
  qed
qed

lemma PerformShuffle_inverse_in:
  assumes "deck_inv s"
  shows "PerformShuffle_inverse INV_INSHUFFLE s = Some (s\<lparr>m_deck := unriffle_in (m_deck s)\<rparr>)"
proof -
  define d where "d = m_deck s"
  define m where "m = length d div 2"
  have sz: "m_deckSize s = length d" and par: "m_bIsDeckOdd s = odd (length d)"
    using assms by (simp_all add: deck_inv_def d_def)
  show ?thesis
  proof (cases "even (length d)")
    case True
    then have N: "length d = 2 * m" by (auto simp: m_def)
    have cp: "copy_every_n d 0 (2 * m) (replicate m 0) (replicate m 0) 2 = Some (evens d, odds d)"
      using copy_every_n_eq [of 0 "2 * m" d m] N by simp
    show ?thesis
      using N True cp
      by (simp add: PerformShuffle_inverse_def inverse_half1_def sz par std_copy_def
          unriffle_in_def d_def [symmetric])
  next
    case False
    then have N: "length d = 2 * m + 1" by (auto simp: m_def elim: oddE)
    have cp: "copy_every_n d 0 (2 * m) (replicate m 0) (replicate m 0) 2 = Some (take m (evens d), odds d)"
      using copy_every_n_eq [of 0 "2 * m" d m] N by simp
    have "drop (2 * m) d = d ! (2 * m) # drop (Suc (2 * m)) d"
      using N by (intro Cons_nth_drop_Suc [symmetric]) simp
    then have last: "drop (2 * m) d = [d ! (2 * m)]"
      using N by simp
    have le: "length (evens d) = Suc m"
      using N by simp
    then have "take (Suc m) (evens d) = take m (evens d) @ [evens d ! m]"
      by (intro take_Suc_conv_app_nth) simp
    then have "evens d = take m (evens d) @ [evens d ! m]"
      using le by simp
    moreover have "evens d ! m = d ! (2 * m)"
      using nth_evens_odds [of m d] N by simp
    ultimately have ev: "take m (evens d) @ drop (m + m) d = evens d"
      using last by (simp add: mult_2)
    show ?thesis
      using False cp N
      by (simp add: PerformShuffle_inverse_def inverse_half1_def sz par std_copy_def
          unriffle_in_def d_def [symmetric] ev)
  qed
qed

lemma deck_inv_CardShuffler: "deck_inv (CardShuffler g)"
  by (simp add: deck_inv_def CardShuffler_def)

lemma GenerateDeck_returns:
  assumes "3 \<le> N" and "N \<le> max_size P" and "N \<le> alloc_limit P" and "N \<le> UINT_MAX P"
  shows "GenerateDeck P N s =
     (Inr (map (T_of_uint P) [0..<N]),
      s\<lparr>m_deck := map (T_of_uint P) [0..<N], m_DeckCopy := [], m_deckSize := N,
        m_bIsDeckOdd := odd N\<rparr>)"
proof -
  have "push_back_loop P 0 N [] = Inr ([] @ map (T_of_uint P) [0..<N])"
    using assms by (intro push_back_loop_fits) simp_all
  then show ?thesis
    using assms
    by (simp add: GenerateDeck_def MIN_DECK_SIZE_def reserve_def odd_iff_mod_2_eq_one)
qed

lemma GenerateDeck_valid:
  "3 \<le> N \<Longrightarrow> fits P N \<Longrightarrow> GenerateDeck P N s =
     (Inr (canonical N),
      s\<lparr>m_deck := canonical N, m_DeckCopy := [], m_deckSize := N, m_bIsDeckOdd := odd N\<rparr>)"
  using fits_cards [of P N] by (simp add: GenerateDeck_returns fits_def canonical_def)

lemma GenerateDeck_invalid: "N < 3 \<Longrightarrow> GenerateDeck P N s = (Inr [], s)"
  by (simp add: GenerateDeck_def MIN_DECK_SIZE_def)

lemma deck_inv_GenerateDeck:
  assumes "deck_inv s" and "fst (GenerateDeck P N s) = Inr d"
  shows "deck_inv (snd (GenerateDeck P N s))"
proof (cases "N < 3")
  case True
  then show ?thesis using assms(1) by (simp add: GenerateDeck_invalid)
next
  case False
  with assms(2) obtain deck where l: "push_back_loop P 0 N [] = Inr deck"
    by (auto simp: GenerateDeck_def MIN_DECK_SIZE_def Let_def split: option.splits sum.splits)
  then have "length deck = N"
    by (rule push_back_loop_length)
  then show ?thesis
    using False l assms(2)
    by (auto simp: GenerateDeck_def MIN_DECK_SIZE_def Let_def deck_inv_def odd_iff_mod_2_eq_one
        split: option.splits)
qed

lemma length_riffle_out [simp]: "length (riffle_out d) = length d"
  by (simp add: riffle_out_def)

lemma length_riffle_in [simp]: "length (riffle_in d) = length d"
  by (simp add: riffle_in_def)

lemma length_unriffle_out [simp]: "length (unriffle_out d) = length d"
  by (simp add: unriffle_out_def)

lemma length_unriffle_in [simp]: "length (unriffle_in d) = length d"
  by (simp add: unriffle_in_def)







lemma PerformShuffle_riffles:
  assumes "deck_inv s"
  shows "PerformShuffle L OUTSHUFFLE s = Some (s\<lparr>m_deck := riffle_out (m_deck s)\<rparr>)"
    and "PerformShuffle L INSHUFFLE s = Some (s\<lparr>m_deck := riffle_in (m_deck s)\<rparr>)"
    and "PerformShuffle L INV_OUTSHUFFLE s = Some (s\<lparr>m_deck := unriffle_out (m_deck s)\<rparr>)"
    and "PerformShuffle L INV_INSHUFFLE s = Some (s\<lparr>m_deck := unriffle_in (m_deck s)\<rparr>)"
  using assms
  by (simp_all add: PerformShuffle_def PerformShuffle_riffle_out PerformShuffle_riffle_in
      PerformShuffle_inverse_out PerformShuffle_inverse_in)

lemma deck_inv_update:
  "deck_inv s \<Longrightarrow> length d = length (m_deck s) \<Longrightarrow> deck_inv (s\<lparr>m_deck := d\<rparr>)"
  by (simp add: deck_inv_def)


lemma example_deck_eq:
  "3 \<le> length d \<Longrightarrow> length d \<le> 2147483648 \<Longrightarrow>
   example_deck d =
     \<lparr> m_deck = d, m_DeckCopy = [], m_bIsDeckOdd = odd (length d), m_deckSize = length d,
       m_FirstHalfIndex = 0, m_SecondHalfIndex = 0, m_MinVectorSize = 0, m_urng = 0 \<rparr>"
  by (simp add: example_deck_def GenerateDeck_valid fits_platform_int CardShuffler_def)

lemma example_deck_simps:
  "3 \<le> length d \<Longrightarrow> length d \<le> 2147483648 \<Longrightarrow> m_deck (example_deck d) = d"
  "3 \<le> length d \<Longrightarrow> length d \<le> 2147483648 \<Longrightarrow> m_deckSize (example_deck d) = length d"
  "3 \<le> length d \<Longrightarrow> length d \<le> 2147483648 \<Longrightarrow> deck_inv (example_deck d)"
  "3 \<le> length d \<Longrightarrow> length d \<le> 2147483648 \<Longrightarrow> m_urng (example_deck d) = 0"
  by (simp_all add: example_deck_def GenerateDeck_valid fits_platform_int deck_inv_def CardShuffler_def)

subsection \<open>The restoration loop on the riffles\<close>

lemma RestoreDeck_loop_count:
  assumes step: "\<And>t. deck_inv t \<Longrightarrow> PerformShuffle L kind t = Some (t\<lparr>m_deck := f (m_deck t)\<rparr>)"
    and len: "\<And>d. length (f d) = length d"
  shows "deck_inv t \<Longrightarrow> restore_count f fuel n (m_deck t) = Some c \<Longrightarrow>
         map_option fst (RestoreDeck_loop L kind n t) = Some c"
proof (induction fuel arbitrary: n t)
  case 0
  then show ?case by simp
next
  case (Suc fuel)
  let ?t = "t\<lparr>m_deck := f (m_deck t)\<rparr>"
  have inv: "deck_inv ?t"
    using Suc.prems(1) by (simp add: deck_inv_update len)
  show ?case
  proof (cases "is_sorted (f (m_deck t))")
    case True
    then show ?thesis
      using Suc.prems by (subst RestoreDeck_loop.simps) (simp add: step IsDeckRestored_def)
  next
    case False
    then have "restore_count f fuel (n + 1) (m_deck ?t) = Some c"
      using Suc.prems(2) by simp
    then have "map_option fst (RestoreDeck_loop L kind (n + 1) ?t) = Some c"
      by (rule Suc.IH [OF inv])
    then show ?thesis
      using False Suc.prems(1) by (subst RestoreDeck_loop.simps) (simp add: step IsDeckRestored_def)
  qed
qed

lemma count_out_52: "restore_count riffle_out 8 0 (canonical 52) = Some 8"
  by code_simp

lemma count_in_52: "restore_count riffle_in 52 0 (canonical 52) = Some 52"
  by code_simp

lemma GenerateDeck_state:
  "3 \<le> N \<Longrightarrow> fits P N \<Longrightarrow>
   deck_inv (snd (GenerateDeck P N s)) \<and> m_deck (snd (GenerateDeck P N s)) = canonical N
     \<and> m_deckSize (snd (GenerateDeck P N s)) = N"
  by (simp add: GenerateDeck_valid deck_inv_def canonical_def)

subsection \<open>The odd inverse out-shuffle by positions\<close>

lemma evens_map: "evens xs = map (\<lambda>k. xs ! (2 * k)) [0..<(length xs + 1) div 2]"
  using nth_evens_odds [of _ xs] by (intro nth_equalityI) simp_all

lemma odds_map: "odds xs = map (\<lambda>k. xs ! (2 * k + 1)) [0..<length xs div 2]"
  using nth_evens_odds [of _ xs] by (intro nth_equalityI) simp_all

lemma halves_tl:
  assumes "odd (length d)"
  shows "half_A d = evens (tl d) \<and> half_B d = odds (tl d)"
proof -
  from assms obtain x t where d: "d = x # t" and t: "even (length t)"
    by (cases d) simp_all
  have "half_A d = evens t"
    using t by (simp add: half_A_def d evens_map)
  moreover have "half_B d = odds t"
    by (simp add: half_B_def d odds_map)
  ultimately show ?thesis
    by (simp add: d)
qed

lemma unriffle_out_odd:
  assumes "odd (length d)"
  shows "unriffle_out d = d ! 0 # half_B d @ half_A d"
proof -
  from assms obtain x t where d: "d = x # t"
    by (cases d) simp_all
  then show ?thesis
    using halves_tl [OF assms] by (simp add: unriffle_out_def)
qed

lemma copy_every_n_odd_tail:
  assumes "odd (length d)"
  shows "copy_every_n d 1 (length d) (replicate (length d div 2) 0) (replicate (length d div 2) 0) 2
           = Some (half_A d, half_B d)"
proof -
  from assms obtain m where N: "length d = 2 * m + 1"
    by (auto elim: oddE)
  then have k: "length d div 2 = m" by simp
  have "copy_every_n d 1 (length d) (replicate m 0) (replicate m 0) 2
          = Some (take m (evens (drop 1 d)), take m (odds (drop 1 d)))"
    using N by (intro copy_every_n_eq) simp_all
  moreover have "length (tl d) = 2 * m"
    using N by simp
  ultimately show ?thesis
    using halves_tl [OF assms] by (simp add: k drop_Suc)
qed

subsection \<open>The randomised shuffles\<close>



subsection \<open>Every member function keeps the invariant\<close>

lemma fisher_yates_loop_length:
  "fisher_yates_loop L i deck g = Some (deck', g') \<Longrightarrow> length deck' = length deck"
proof (induction i arbitrary: deck g)
  case 0
  then show ?case by (subst (asm) fisher_yates_loop.simps) simp
next
  case (Suc i)
  obtain j g1 where u: "uniform_int_distribution L 0 (Suc i) g = (j, g1)"
    by (cases "uniform_int_distribution L 0 (Suc i) g")
  from Suc.prems obtain d1 where
    "fisher_yates_loop L i d1 g1 = Some (deck', g')" "length d1 = length deck"
    by (subst (asm) fisher_yates_loop.simps)
      (auto simp: u at_def assign_def split: if_splits bind_splits)
  then show ?case
    using Suc.IH by metis
qed

lemma deck_inv_PerformShuffle:
  assumes "stdlib_contract L" and "deck_inv s" and "PerformShuffle L kind s = Some s'"
  shows "deck_inv s'"
proof (cases kind)
  case STL_SHUFFLE
  obtain d g where r: "std_shuffle L (m_deck s) (m_urng s) = (d, g)"
    by (cases "std_shuffle L (m_deck s) (m_urng s)")
  then have "mset d = mset (m_deck s)"
    using assms(1) unfolding stdlib_contract_def by (metis fst_conv)
  then have "length d = length (m_deck s)"
    by (metis size_mset)
  then show ?thesis
    using assms(2,3) STL_SHUFFLE r by (auto simp: PerformShuffle_def deck_inv_def)
next
  case FISHER_YATES
  then show ?thesis
    using assms(2,3)
    by (auto simp: PerformShuffle_def deck_inv_def split: if_splits bind_splits
        dest: fisher_yates_loop_length)
qed (use assms(2,3) in \<open>auto simp: PerformShuffle_riffles deck_inv_update\<close>)

lemma deck_inv_ResetDeck:
  assumes "deck_inv s" and "fst (ResetDeck P s) = None"
  shows "deck_inv (snd (ResetDeck P s))"
proof -
  obtain r s' where g: "GenerateDeck P (length (m_deck s)) s = (r, s')"
    by (cases "GenerateDeck P (length (m_deck s)) s")
  with assms(2) obtain d where "r = Inr d"
    by (cases r) (simp_all add: ResetDeck_def)
  then have "deck_inv s'"
    using deck_inv_GenerateDeck [OF assms(1), of P "length (m_deck s)" d] g by simp
  then show ?thesis
    using g by (simp add: ResetDeck_def)
qed

lemma RestoreDeck_loop_result_aux:
  assumes r: "RestoreDeck_loop L kind n s = Some r"
  shows "stdlib_contract L \<longrightarrow> deck_inv s \<longrightarrow> deck_inv (snd r) \<and> IsDeckRestored (snd r) \<and> n < fst r"
proof (rule RestoreDeck_loop.raw_induct
    [where P = "\<lambda>L kind n s r. stdlib_contract L \<longrightarrow> deck_inv s \<longrightarrow>
                  deck_inv (snd r) \<and> IsDeckRestored (snd r) \<and> n < fst r", OF _ r], intro impI)
  fix loop :: "'a stdlib \<Rightarrow> ShuffleType \<Rightarrow> nat \<Rightarrow> 'a CardShuffler \<Rightarrow> (nat \<times> 'a CardShuffler) option"
  fix L kind n s r
  assume IH: "\<And>L kind n s r. loop L kind n s = Some r \<Longrightarrow>
      stdlib_contract L \<longrightarrow> deck_inv s \<longrightarrow> deck_inv (snd r) \<and> IsDeckRestored (snd r) \<and> n < fst r"
    and eq: "(case PerformShuffle L kind s of None \<Rightarrow> None
              | Some s' \<Rightarrow> if IsDeckRestored s' = False then loop L kind (n + 1) s'
                          else Some (n + 1, s')) = Some r"
    and L: "stdlib_contract L" and s: "deck_inv s"
  from eq obtain s' where s': "PerformShuffle L kind s = Some s'"
    by (cases "PerformShuffle L kind s") simp_all
  have inv: "deck_inv s'"
    using L s s' by (rule deck_inv_PerformShuffle)
  show "deck_inv (snd r) \<and> IsDeckRestored (snd r) \<and> n < fst r"
  proof (cases "IsDeckRestored s'")
    case True
    then show ?thesis using eq s' inv by auto
  next
    case False
    then have "loop L kind (n + 1) s' = Some r"
      using eq s' by simp
    from IH [OF this] L inv show ?thesis by simp
  qed
qed

lemma RestoreDeck_result:
  assumes "stdlib_contract L" and "deck_inv s" and "RestoreDeck L kind s = Some (n, s')"
  shows "deck_inv s' \<and> IsDeckRestored s' \<and> 0 < n"
  using RestoreDeck_loop_result_aux [of L kind 0 s "(n, s')"] assms
  by (simp add: RestoreDeck_def)

subsection \<open>Failed generations\<close>

lemma failed_generations_id: "list_all (\<lambda>n. n < 3) ns \<Longrightarrow> failed_generations P ns s = s"
  unfolding failed_generations_def
  by (induction ns arbitrary: s) (simp_all add: GenerateDeck_invalid)

section \<open>The claims\<close>



text \<open>
  C2. On the canonical deck of 52 cards, the restoration loop with the out-shuffle
  returns the count 8 and with the in-shuffle the count 52: the loop counts its first
  shuffle as 1 and stops at the first shuffle after which the deck is sorted. The
  result does not depend on the library, on the object the deck was generated in, or
  on the platform, as long as it can generate 52 cards.
\<close>

theorem restore_order_52:
  assumes "fits P 52"
  shows "map_option fst (RestoreDeck L OUTSHUFFLE (snd (GenerateDeck P 52 s))) = Some 8 \<and>
         map_option fst (RestoreDeck L INSHUFFLE (snd (GenerateDeck P 52 s))) = Some 52"
proof -
  have g: "deck_inv (snd (GenerateDeck P 52 s))" "m_deck (snd (GenerateDeck P 52 s)) = canonical 52"
    using GenerateDeck_state [OF _ assms, of s] by simp_all
  have "map_option fst (RestoreDeck_loop L OUTSHUFFLE 0 (snd (GenerateDeck P 52 s))) = Some 8"
    by (rule RestoreDeck_loop_count [where f = riffle_out and fuel = 8])
      (simp_all add: PerformShuffle_riffles g count_out_52)
  moreover have "map_option fst (RestoreDeck_loop L INSHUFFLE 0 (snd (GenerateDeck P 52 s))) = Some 52"
    by (rule RestoreDeck_loop_count [where f = riffle_in and fuel = 52])
      (simp_all add: PerformShuffle_riffles g count_in_52)
  ultimately show ?thesis
    by (simp add: RestoreDeck_def)
qed

theorem restore_order_52_witness:
  "fits platform_int 52 \<and>
   map_option fst (RestoreDeck stdlib_example OUTSHUFFLE
     (snd (GenerateDeck platform_int 52 (CardShuffler 0)))) = Some 8 \<and>
   map_option fst (RestoreDeck stdlib_example INSHUFFLE
     (snd (GenerateDeck platform_int 52 (CardShuffler 0)))) = Some 52"
proof -
  have h: "fits platform_int 52"
    by (rule fits_platform_int) simp
  show ?thesis
    using restore_order_52 [OF h, of stdlib_example "CardShuffler 0"] h by simp
qed

text \<open>
  C3, as amended. On an odd deck of \<open>N \<ge> 3\<close> cards the inverse out-shuffle leaves position 0
  as it is, reads the cards at positions 1, 3, 5, ... into \<open>A\<close> and those at positions
  2, 4, 6, ... into \<open>B\<close>, each of them \<open>N div 2\<close> cards, and writes \<open>B\<close> followed by \<open>A\<close>
  into positions \<open>[1, N)\<close>; its \<^verbatim>\<open>half1\<close> is \<open>N div 2\<close>. The claim has \<open>A\<close> before
  \<open>B\<close> and \<^verbatim>\<open>half1\<close> rounded up; the counterexample evaluates the code on the deck
  \<open>[0, 3, 1, 4, 2]\<close>, where the code gives \<open>[0, 1, 2, 3, 4]\<close> and the claimed order
  would give \<open>[0, 3, 4, 1, 2]\<close>.
\<close>

theorem inverse_outshuffle_odd:
  assumes "deck_inv s" and "odd (m_deckSize s)" and "3 \<le> m_deckSize s"
    and "mset (m_deck s) = mset (canonical (m_deckSize s))"
  shows "copy_every_n (m_deck s) 1 (length (m_deck s))
             (replicate (m_deckSize s div 2) 0) (replicate (m_deckSize s div 2) 0) 2
           = Some (half_A (m_deck s), half_B (m_deck s)) \<and>
         PerformShuffle L INV_OUTSHUFFLE s
           = Some (s\<lparr>m_deck := m_deck s ! 0 # half_B (m_deck s) @ half_A (m_deck s)\<rparr>) \<and>
         length (half_A (m_deck s)) = m_deckSize s div 2 \<and>
         length (half_B (m_deck s)) = m_deckSize s div 2 \<and>
         inverse_half1 s = m_deckSize s div 2"
proof -
  have len: "m_deckSize s = length (m_deck s)" and odd: "m_bIsDeckOdd s"
    using assms(1,2) by (simp_all add: deck_inv_def)
  have o: "odd (length (m_deck s))"
    using assms(2) by (simp add: len)
  have "unriffle_out (m_deck s) = m_deck s ! 0 # half_B (m_deck s) @ half_A (m_deck s)"
    by (rule unriffle_out_odd [OF o])
  moreover have "(length (m_deck s) - 1) div 2 = length (m_deck s) div 2"
    using o by (auto elim: oddE)
  ultimately show ?thesis
    using assms(1) odd copy_every_n_odd_tail [OF o]
    by (simp add: PerformShuffle_riffles half_A_def half_B_def inverse_half1_def len)
qed

theorem inverse_outshuffle_odd_witness:
  "deck_inv (example_deck [0, 3, 1, 4, 2]) \<and> odd (m_deckSize (example_deck [0, 3, 1, 4, 2])) \<and>
   3 \<le> m_deckSize (example_deck [0, 3, 1, 4, 2]) \<and>
   mset (m_deck (example_deck [0, 3, 1, 4, 2])) = mset (canonical (m_deckSize (example_deck [0, 3, 1, 4, 2]))) \<and>
   map_option m_deck (PerformShuffle stdlib_example INV_OUTSHUFFLE (example_deck [0, 3, 1, 4, 2]))
     = Some [0, 1, 2, 3, 4] \<and>
   half_A [0, 3, 1, 4, 2 :: card] = [3, 4] \<and> half_B [0, 3, 1, 4, 2 :: card] = [1, 2] \<and>
   inverse_half1 (example_deck [0, 3, 1, 4, 2]) = 2"
proof -
  have h1: "deck_inv (example_deck [0, 3, 1, 4, 2])"
    and h2: "odd (m_deckSize (example_deck [0, 3, 1, 4, 2]))"
    and h3: "3 \<le> m_deckSize (example_deck [0, 3, 1, 4, 2])"
    by (simp_all add: example_deck_simps)
  have h4: "mset (m_deck (example_deck [0, 3, 1, 4, 2]))
              = mset (canonical (m_deckSize (example_deck [0, 3, 1, 4, 2])))"
    by (simp add: example_deck_simps canonical_def)
  have A: "half_A [0, 3, 1, 4, 2 :: card] = [3, 4]" and B: "half_B [0, 3, 1, 4, 2 :: card] = [1, 2]"
    by (simp_all add: half_A_def half_B_def upt_rec)
  show ?thesis
    using inverse_outshuffle_odd [OF h1 h2 h3 h4, of stdlib_example] h1 h2 h3 h4
    by (simp add: A B example_deck_simps)
qed

theorem inverse_outshuffle_odd_counterexample:
  "map_option m_deck (PerformShuffle stdlib_example INV_OUTSHUFFLE (example_deck [0, 3, 1, 4, 2]))
     = Some [0, 1, 2, 3, 4] \<and>
   claimed_InverseOutshuffle_odd [0, 3, 1, 4, 2 :: card] = [0, 3, 4, 1, 2] \<and>
   map_option m_deck (PerformShuffle stdlib_example INV_OUTSHUFFLE (example_deck [0, 3, 1, 4, 2]))
     \<noteq> Some (claimed_InverseOutshuffle_odd [0, 3, 1, 4, 2]) \<and>
   inverse_half1 (example_deck [0, 3, 1, 4, 2]) = 2 \<and>
   inverse_half1 (example_deck [0, 3, 1, 4, 2]) \<noteq> (5 + 1) div 2"
proof -
  have e: "example_deck [0, 3, 1, 4, 2] =
     \<lparr> m_deck = [0, 3, 1, 4, 2], m_DeckCopy = [], m_bIsDeckOdd = True, m_deckSize = 5,
       m_FirstHalfIndex = 0, m_SecondHalfIndex = 0, m_MinVectorSize = 0, m_urng = 0 \<rparr>"
    by (simp add: example_deck_eq)
  show ?thesis
    unfolding e by code_simp
qed



text \<open>
  C5, as amended. For \<open>N \<ge> 3\<close> that the platform can generate (the vector and the
  allocator have room for \<open>N\<close> cards, \<open>N\<close> is at most \<^verbatim>\<open>UINT_MAX\<close>, and \<^verbatim>\<open>T\<close> holds each
  of \<open>0, ..., N - 1\<close> as it is), generation on any object returns and stores the deck
  \<open>0, 1, ..., N - 1\<close> of exactly \<open>N\<close> cards, whatever the deck was before, and the
  restoration test is true right after. The claim speaks of every \<open>N \<ge> 3\<close>. The
  counterexample has three sizes where the code does otherwise. With \<^verbatim>\<open>T = int\<close> and
  \<open>N = 2^64 - 1\<close>, \<^verbatim>\<open>reserve\<close> throws \<^verbatim>\<open>length_error\<close> and leaves the deck empty beside
  the old size and flag. With \<^verbatim>\<open>T = uint8_t\<close> and \<open>N = 257\<close>, the call returns 257 cards,
  the last of them 0, and the restoration test is false. With \<open>N = 2^32\<close>, one above
  \<^verbatim>\<open>UINT_MAX\<close>, the counter wraps before it reaches \<open>N\<close> and the call ends in an
  exception.
\<close>

theorem generate_canonical:
  assumes "3 \<le> N" and "fits P N"
  shows "fst (GenerateDeck P N s) = Inr (canonical N) \<and>
         GetDeck (snd (GenerateDeck P N s)) = canonical N \<and>
         length (GetDeck (snd (GenerateDeck P N s))) = N \<and>
         m_deckSize (snd (GenerateDeck P N s)) = N \<and>
         m_bIsDeckOdd (snd (GenerateDeck P N s)) = odd N \<and>
         IsDeckRestored (snd (GenerateDeck P N s))"
  using assms
  by (simp add: GenerateDeck_valid GetDeck_def IsDeckRestored_def is_sorted_iff sorted_canonical)
    (simp add: canonical_def)

theorem generate_canonical_witness:
  "(3::nat) \<le> 4 \<and> fits platform_int 4 \<and>
   fst (GenerateDeck platform_int 4 (example_deck [3, 0, 4, 1, 2])) = Inr [0, 1, 2, 3] \<and>
   GetDeck (snd (GenerateDeck platform_int 4 (example_deck [3, 0, 4, 1, 2]))) = [0, 1, 2, 3] \<and>
   length (GetDeck (snd (GenerateDeck platform_int 4 (example_deck [3, 0, 4, 1, 2])))) = 4 \<and>
   IsDeckRestored (snd (GenerateDeck platform_int 4 (example_deck [3, 0, 4, 1, 2])))"
proof -
  have h: "(3::nat) \<le> 4" by simp
  have f: "fits platform_int 4"
    by (rule fits_platform_int) simp
  have c: "canonical 4 = [0, 1, 2, 3]"
    by (simp add: canonical_def upt_rec)
  show ?thesis
    using generate_canonical [OF h f, of "example_deck [3, 0, 4, 1, 2]"] f by (simp add: c)
qed

theorem generate_canonical_counterexample:
  "fst (GenerateDeck platform_int 18446744073709551615 (example_deck [3, 0, 4, 1, 2]))
     = Inl length_error \<and>
   m_deck (snd (GenerateDeck platform_int 18446744073709551615 (example_deck [3, 0, 4, 1, 2]))) = [] \<and>
   m_deckSize (snd (GenerateDeck platform_int 18446744073709551615 (example_deck [3, 0, 4, 1, 2]))) = 5 \<and>
   m_bIsDeckOdd (snd (GenerateDeck platform_int 18446744073709551615 (example_deck [3, 0, 4, 1, 2]))) \<and>
   map_sum id length (fst (GenerateDeck platform_uint8 257 (CardShuffler (0::nat)))) = Inr 257 \<and>
   map_sum id last (fst (GenerateDeck platform_uint8 257 (CardShuffler (0::nat)))) = Inr 0 \<and>
   fst (GenerateDeck platform_uint8 257 (CardShuffler (0::nat))) \<noteq> Inr (canonical 257) \<and>
   \<not> IsDeckRestored (snd (GenerateDeck platform_uint8 257 (CardShuffler (0::nat)))) \<and>
   isl (fst (GenerateDeck platform_int 4294967296 (CardShuffler (0::nat))))"
proof -
  have big: "GenerateDeck platform_int 18446744073709551615 (example_deck [3, 0, 4, 1, 2])
               = (Inl length_error, (example_deck [3, 0, 4, 1, 2])\<lparr>m_deck := []\<rparr>)"
    by (simp add: GenerateDeck_def MIN_DECK_SIZE_def reserve_def platform_int_def)
  have small: "map_sum id length (fst (GenerateDeck platform_uint8 257 (CardShuffler (0::nat)))) = Inr 257 \<and>
      map_sum id last (fst (GenerateDeck platform_uint8 257 (CardShuffler (0::nat)))) = Inr 0 \<and>
      fst (GenerateDeck platform_uint8 257 (CardShuffler (0::nat))) \<noteq> Inr (canonical 257) \<and>
      \<not> IsDeckRestored (snd (GenerateDeck platform_uint8 257 (CardShuffler (0::nat))))"
  proof -
    let ?d = "map (T_of_uint platform_uint8) [0..<257]"
    have g: "GenerateDeck platform_uint8 257 (CardShuffler (0::nat)) =
        (Inr ?d, (CardShuffler 0)\<lparr>m_deck := ?d, m_DeckCopy := [], m_deckSize := 257,
           m_bIsDeckOdd := odd (257::nat)\<rparr>)"
      by (rule GenerateDeck_returns) (simp_all add: platform_uint8_def)
    have l: "last ?d = 0"
      by (simp add: last_map platform_uint8_def)
    have n: "?d \<noteq> canonical 257"
    proof
      assume "?d = canonical 257"
      then have "last ?d = last (canonical 257)" by simp
      then show False by (simp add: l canonical_def last_map)
    qed
    have "\<not> sorted ?d"
    proof
      assume "sorted ?d"
      then have "?d ! 255 \<le> ?d ! 256"
        by (rule sorted_nth_mono) simp_all
      then show False by (simp add: platform_uint8_def)
    qed
    then show ?thesis
      using l n by (simp add: g IsDeckRestored_def is_sorted_iff)
  qed
  have "isl (push_back_loop platform_int 0 4294967296 [])"
    by (rule push_back_loop_wraps) (simp_all add: platform_int_def)
  then have wrap: "isl (fst (GenerateDeck platform_int 4294967296 (CardShuffler (0::nat))))"
    by (auto simp: GenerateDeck_def MIN_DECK_SIZE_def reserve_def Let_def
        platform_int_def CardShuffler_def split: sum.splits)
  show ?thesis
    using big small wrap by (simp add: example_deck_eq)
qed

text \<open>
  C6. For \<open>N < 3\<close>, generation returns the empty vector, of size 0, and throws nothing,
  on every platform; on a newly constructed object the stored deck is empty as well.
\<close>

theorem generate_undersized:
  assumes "N < 3"
  shows "fst (GenerateDeck P N s) = Inr [] \<and>
         map_sum id length (fst (GenerateDeck P N s)) = Inr 0 \<and>
         GetDeck (snd (GenerateDeck P N (CardShuffler g))) = [] \<and>
         length (GetDeck (snd (GenerateDeck P N (CardShuffler g)))) = 0"
  using assms by (simp add: GenerateDeck_invalid GetDeck_def CardShuffler_def)

theorem generate_undersized_witness:
  "(2::nat) < 3 \<and> fst (GenerateDeck platform_int 2 (example_deck [3, 0, 4, 1, 2])) = Inr [] \<and>
   map_sum id length (fst (GenerateDeck platform_int 2 (example_deck [3, 0, 4, 1, 2]))) = Inr 0 \<and>
   GetDeck (snd (GenerateDeck platform_int 2 (CardShuffler (0::nat)))) = [] \<and>
   length (GetDeck (snd (GenerateDeck platform_int 2 (CardShuffler (0::nat))))) = 0"
proof -
  have h: "(2::nat) < 3" by simp
  show ?thesis
    using generate_undersized [OF h, of platform_int "example_deck [3, 0, 4, 1, 2]" "0::nat"] by simp
qed



text \<open>
  C8. The small cases: the out-shuffle of \<open>[0, 1, 2, 3, 4]\<close> is \<open>[0, 3, 1, 4, 2]\<close>, the
  inverse out-shuffle of \<open>[0, 3, 1, 4, 2]\<close> is \<open>[0, 1, 2, 3, 4]\<close>, and the in-shuffle of
  \<open>[0, 1, 2, 3, 4, 5]\<close> is \<open>[3, 0, 4, 1, 5, 2]\<close>, on the decks generated at 5 and at 6 on
  any platform that can generate 6 cards.
\<close>

theorem small_cases:
  assumes "fits P 6"
  shows "GetDeck (snd (GenerateDeck P 5 s)) = [0, 1, 2, 3, 4] \<and>
   map_option GetDeck (PerformShuffle L OUTSHUFFLE (snd (GenerateDeck P 5 s))) = Some [0, 3, 1, 4, 2] \<and>
   map_option GetDeck (PerformShuffle L INV_OUTSHUFFLE ((snd (GenerateDeck P 5 s))\<lparr>m_deck := [0, 3, 1, 4, 2]\<rparr>))
     = Some [0, 1, 2, 3, 4] \<and>
   map_option GetDeck (PerformShuffle L OUTSHUFFLE (snd (GenerateDeck P 5 s)) \<bind> PerformShuffle L INV_OUTSHUFFLE)
     = Some [0, 1, 2, 3, 4] \<and>
   GetDeck (snd (GenerateDeck P 6 s)) = [0, 1, 2, 3, 4, 5] \<and>
   map_option GetDeck (PerformShuffle L INSHUFFLE (snd (GenerateDeck P 6 s))) = Some [3, 0, 4, 1, 5, 2]"
proof -
  have f5: "fits P 5"
    using assms by (rule fits_mono) simp
  have c5: "canonical 5 = [0, 1, 2, 3, 4]" and c6: "canonical 6 = [0, 1, 2, 3, 4, 5]"
    by (simp_all add: canonical_def upt_rec)
  have g5: "deck_inv (snd (GenerateDeck P 5 s))" "m_deck (snd (GenerateDeck P 5 s)) = [0, 1, 2, 3, 4]"
    using GenerateDeck_state [OF _ f5, of s] by (simp_all add: c5)
  have g5': "deck_inv ((snd (GenerateDeck P 5 s))\<lparr>m_deck := [0, 3, 1, 4, 2]\<rparr>)"
    "m_deck ((snd (GenerateDeck P 5 s))\<lparr>m_deck := [0, 3, 1, 4, 2]\<rparr>) = [0, 3, 1, 4, 2]"
    using g5 by (simp_all add: deck_inv_update)
  have g6: "deck_inv (snd (GenerateDeck P 6 s))" "m_deck (snd (GenerateDeck P 6 s)) = [0, 1, 2, 3, 4, 5]"
    using GenerateDeck_state [OF _ assms, of s] by (simp_all add: c6)
  have r1: "riffle_out [0, 1, 2, 3, 4 :: card] = [0, 3, 1, 4, 2]"
    by (simp add: riffle_out_def)
  have r2: "unriffle_out [0, 3, 1, 4, 2 :: card] = [0, 1, 2, 3, 4]"
    by (simp add: unriffle_out_def)
  have r3: "riffle_in [0, 1, 2, 3, 4, 5 :: card] = [3, 0, 4, 1, 5, 2]"
    by (simp add: riffle_in_def)
  show ?thesis
    by (simp add: GetDeck_def PerformShuffle_riffles g5 g5' g6 r1 r2 r3)
qed

theorem small_cases_witness:
  "fits platform_int 6 \<and>
   GetDeck (snd (GenerateDeck platform_int 5 (CardShuffler (0::nat)))) = [0, 1, 2, 3, 4] \<and>
   map_option GetDeck (PerformShuffle stdlib_example OUTSHUFFLE
     (snd (GenerateDeck platform_int 5 (CardShuffler 0)))) = Some [0, 3, 1, 4, 2] \<and>
   map_option GetDeck (PerformShuffle stdlib_example OUTSHUFFLE
     (snd (GenerateDeck platform_int 5 (CardShuffler 0))) \<bind> PerformShuffle stdlib_example INV_OUTSHUFFLE)
     = Some [0, 1, 2, 3, 4] \<and>
   map_option GetDeck (PerformShuffle stdlib_example INSHUFFLE
     (snd (GenerateDeck platform_int 6 (CardShuffler 0)))) = Some [3, 0, 4, 1, 5, 2]"
proof -
  have h: "fits platform_int 6"
    by (rule fits_platform_int) simp
  show ?thesis
    using small_cases [OF h, of "CardShuffler 0" stdlib_example] h by simp
qed

text \<open>
  C9. A failed generation changes nothing: for a size below 3 the call returns the empty
  vector and the object afterwards is the object before, so the stored deck, the
  recorded size and the parity flag are as they were and \<^verbatim>\<open>GetDeck\<close> returns the
  same arrangement.
\<close>

theorem failed_generate_atomic:
  assumes "N < 3"
  shows "fst (GenerateDeck P N s) = Inr [] \<and> snd (GenerateDeck P N s) = s \<and>
         m_deck (snd (GenerateDeck P N s)) = m_deck s \<and>
         m_deckSize (snd (GenerateDeck P N s)) = m_deckSize s \<and>
         m_bIsDeckOdd (snd (GenerateDeck P N s)) = m_bIsDeckOdd s \<and>
         GetDeck (snd (GenerateDeck P N s)) = GetDeck s"
  using assms by (simp add: GenerateDeck_invalid)

theorem failed_generate_atomic_witness:
  "(2::nat) < 3 \<and> fst (GenerateDeck platform_int 2 (example_deck [3, 0, 4, 1, 2])) = Inr [] \<and>
   snd (GenerateDeck platform_int 2 (example_deck [3, 0, 4, 1, 2])) = example_deck [3, 0, 4, 1, 2] \<and>
   GetDeck (snd (GenerateDeck platform_int 2 (example_deck [3, 0, 4, 1, 2]))) = [3, 0, 4, 1, 2]"
proof -
  have h: "(2::nat) < 3" by simp
  show ?thesis
    using failed_generate_atomic [OF h, of platform_int "example_deck [3, 0, 4, 1, 2]"]
    by (simp add: GetDeck_def example_deck_simps)
qed

text \<open>
  C10. On an object whose deck is empty, newly constructed or after any run of failed
  generation calls, the restoration test is true.
\<close>

theorem empty_deck_restored:
  assumes "list_all (\<lambda>n. n < 3) ns"
  shows "GetDeck (failed_generations P ns (CardShuffler g)) = [] \<and>
         IsDeckRestored (failed_generations P ns (CardShuffler g)) \<and>
         IsDeckRestored (CardShuffler g)"
  using assms by (simp add: failed_generations_id GetDeck_def IsDeckRestored_def CardShuffler_def)

theorem empty_deck_restored_witness:
  "list_all (\<lambda>n. n < 3) [2, 0, 1 :: nat] \<and>
   GetDeck (failed_generations platform_int [2, 0, 1] (CardShuffler (0::nat))) = [] \<and>
   IsDeckRestored (failed_generations platform_int [2, 0, 1] (CardShuffler (0::nat))) \<and>
   IsDeckRestored (CardShuffler (0::nat))"
proof -
  have h: "list_all (\<lambda>n. n < 3) [2, 0, 1 :: nat]" by simp
  show ?thesis
    using empty_deck_restored [OF h, of platform_int "0::nat"] h by simp
qed

end
